theory Spec2Isabelle
  imports Main
begin

section \<open>The piece model (piece.ts)\<close>

text \<open>
  Coordinates are JavaScript numbers that hold integers (they start from integer literals
  and change by \<open>\<plusminus> 1\<close>): an \<open>int\<close> stands for the double of that value, and an \<open>int\<close> that no
  double holds, such as \<open>2\<^sup>5\<^sup>3 + 1\<close>, for no position of the program. The unit steps of
  \<open>movePosition\<close> and of the constructors are written with the addition of \<open>int\<close>, which is
  what the code computes from every safe integer (magnitude below \<open>2\<^sup>5\<^sup>3\<close>); the offsets of
  \<open>getCoveredArea\<close>, which are observed at positions of any magnitude, are added with the
  rounding of doubles (\<open>Number_add\<close> below).
\<close>

definition GRID_WIDTH :: int where
  "GRID_WIDTH = 4"

definition GRID_HEIGHT :: int where
  "GRID_HEIGHT = 5"

record PieceDimensions =
  height :: int
  width :: int

text \<open>The fields \<open>x\<close> and \<open>y\<close> of \<open>PiecePosition\<close> are called \<open>px\<close> and \<open>py\<close>.\<close>

record PiecePosition =
  px :: int
  py :: int

datatype MoveDirection = Up | Down | Left | Right

fun movePosition :: "PiecePosition \<Rightarrow> MoveDirection \<Rightarrow> PiecePosition" where
  "movePosition position Up = \<lparr>px = px position, py = py position - 1\<rparr>"
| "movePosition position Down = \<lparr>px = px position, py = py position + 1\<rparr>"
| "movePosition position Left = \<lparr>px = px position - 1, py = py position\<rparr>"
| "movePosition position Right = \<lparr>px = px position + 1, py = py position\<rparr>"

subsection \<open>Class Square\<close>

text \<open>An object of class \<open>Square\<close>: its \<open>topLeft\<close> and its \<open>id\<close>, as the constructor takes them.\<close>

datatype Square = Square PiecePosition int

fun Square_getID :: "Square \<Rightarrow> int" where
  "Square_getID (Square topLeft ident) = ident"

fun Square_getDimensions :: "Square \<Rightarrow> PieceDimensions" where
  "Square_getDimensions (Square topLeft ident) = \<lparr>height = 1, width = 1\<rparr>"

fun Square_getTopLeft :: "Square \<Rightarrow> PiecePosition" where
  "Square_getTopLeft (Square topLeft ident) = topLeft"

fun Square_canMove :: "Square \<Rightarrow> MoveDirection \<Rightarrow> bool" where
  "Square_canMove (Square topLeft ident) Up = (py topLeft > 0)"
| "Square_canMove (Square topLeft ident) Down = (py topLeft < GRID_HEIGHT - 1)"
| "Square_canMove (Square topLeft ident) Left = (px topLeft > 0)"
| "Square_canMove (Square topLeft ident) Right = (px topLeft < GRID_WIDTH - 1)"

fun Square_move :: "Square \<Rightarrow> MoveDirection \<Rightarrow> Square" where
  "Square_move (Square topLeft ident) direction = Square (movePosition topLeft direction) ident"

subsection \<open>The four classes that implement Piece\<close>

text \<open>
  A value of \<open>Piece\<close> is an object of one of the four classes. The composite classes are
  given by the arguments of their constructors; the private field \<open>squares\<close>, which the
  constructor fills from \<open>topLeft\<close> and nothing changes afterwards, is the function
  \<open>VerticalRect_squares\<close> (and so on) of that argument.
\<close>

datatype Piece =
    PSquare Square
  | VerticalRect PiecePosition int
  | HorizontalRect PiecePosition int
  | SunSquare PiecePosition int

definition VerticalRect_squares :: "PiecePosition \<Rightarrow> Square list" where
  "VerticalRect_squares topLeft =
     [Square topLeft (- 1),
      Square \<lparr>px = px topLeft, py = py topLeft + 1\<rparr> (- 1)]"

definition HorizontalRect_squares :: "PiecePosition \<Rightarrow> Square list" where
  "HorizontalRect_squares topLeft =
     [Square topLeft (- 1),
      Square \<lparr>px = px topLeft + 1, py = py topLeft\<rparr> (- 1)]"

definition SunSquare_squares :: "PiecePosition \<Rightarrow> Square list" where
  "SunSquare_squares topLeft =
     [Square topLeft (- 1),
      Square \<lparr>px = px topLeft + 1, py = py topLeft\<rparr> (- 1),
      Square \<lparr>px = px topLeft, py = py topLeft + 1\<rparr> (- 1),
      Square \<lparr>px = px topLeft + 1, py = py topLeft + 1\<rparr> (- 1)]"

fun getID :: "Piece \<Rightarrow> int" where
  "getID (PSquare s) = Square_getID s"
| "getID (VerticalRect topLeft ident) = ident"
| "getID (HorizontalRect topLeft ident) = ident"
| "getID (SunSquare topLeft ident) = ident"

fun getDimensions :: "Piece \<Rightarrow> PieceDimensions" where
  "getDimensions (PSquare s) = Square_getDimensions s"
| "getDimensions (VerticalRect topLeft ident) = \<lparr>height = 2, width = 1\<rparr>"
| "getDimensions (HorizontalRect topLeft ident) = \<lparr>height = 1, width = 2\<rparr>"
| "getDimensions (SunSquare topLeft ident) = \<lparr>height = 2, width = 2\<rparr>"

text \<open>The composite classes read \<open>this.squares[0].getTopLeft()\<close>; the tuple is never empty.\<close>

fun getTopLeft :: "Piece \<Rightarrow> PiecePosition" where
  "getTopLeft (PSquare s) = Square_getTopLeft s"
| "getTopLeft (VerticalRect topLeft ident) = Square_getTopLeft (VerticalRect_squares topLeft ! 0)"
| "getTopLeft (HorizontalRect topLeft ident) = Square_getTopLeft (HorizontalRect_squares topLeft ! 0)"
| "getTopLeft (SunSquare topLeft ident) = Square_getTopLeft (SunSquare_squares topLeft ! 0)"

fun canMove :: "Piece \<Rightarrow> MoveDirection \<Rightarrow> bool" where
  "canMove (PSquare s) direction = Square_canMove s direction"
| "canMove (VerticalRect topLeft ident) direction =
     list_all (\<lambda>square. Square_canMove square direction) (VerticalRect_squares topLeft)"
| "canMove (HorizontalRect topLeft ident) direction =
     list_all (\<lambda>square. Square_canMove square direction) (HorizontalRect_squares topLeft)"
| "canMove (SunSquare topLeft ident) direction =
     list_all (\<lambda>square. Square_canMove square direction) (SunSquare_squares topLeft)"

fun move :: "Piece \<Rightarrow> MoveDirection \<Rightarrow> Piece" where
  "move (PSquare s) direction = PSquare (Square_move s direction)"
| "move (VerticalRect topLeft ident) direction =
     VerticalRect (movePosition (getTopLeft (VerticalRect topLeft ident)) direction) ident"
| "move (HorizontalRect topLeft ident) direction =
     HorizontalRect (movePosition (getTopLeft (HorizontalRect topLeft ident)) direction) ident"
| "move (SunSquare topLeft ident) direction =
     SunSquare (movePosition (getTopLeft (SunSquare topLeft ident)) direction) ident"

subsection \<open>Covered areas as sets of stringified positions\<close>

text \<open>
  \<open>JSON.stringify\<close> of a number that holds an integer writes its decimal digits, with a
  leading minus sign when it is negative. \<open>JSON.stringify({x: a, y: b})\<close> writes the two
  fields in the order of the literal. (From \<open>2\<^sup>5\<^sup>3\<close> on JavaScript writes the shortest digits
  that identify the double, which may end in zeros where the exact digits do not; both
  notations tell any two doubles apart, and the code only compares the strings.)
\<close>

definition digitChar :: "nat \<Rightarrow> char" where
  "digitChar d = char_of (48 + d)"

fun natToString :: "nat \<Rightarrow> string" where
  "natToString n =
     (if n < 10 then [digitChar n] else natToString (n div 10) @ [digitChar (n mod 10)])"

declare natToString.simps [simp del]

definition numberToString :: "int \<Rightarrow> string" where
  "numberToString i = (if i < 0 then CHR ''-'' # natToString (nat (- i)) else natToString (nat i))"

definition JSON_stringify :: "PiecePosition \<Rightarrow> string" where
  \<open>JSON_stringify p = ''{"x":'' @ numberToString (px p) @ '',"y":'' @ numberToString (py p) @ ''}''\<close>

text \<open>
  A JavaScript \<open>Set\<close> of strings keeps its elements in insertion order without duplicates:
  a duplicate-free list. \<open>Set_add\<close> is \<open>Set.prototype.add\<close>, \<open>Set_has\<close> is \<open>has\<close>,
  \<open>Set_size\<close> is \<open>size\<close> and \<open>new_Set\<close> builds a set from the elements of an array.
\<close>

definition Set_add :: "string list \<Rightarrow> string \<Rightarrow> string list" where
  "Set_add area point = (if point \<in> set area then area else area @ [point])"

definition Set_has :: "string list \<Rightarrow> string \<Rightarrow> bool" where
  "Set_has area point = (point \<in> set area)"

definition Set_size :: "string list \<Rightarrow> nat" where
  "Set_size area = length area"

definition new_Set :: "string list \<Rightarrow> string list" where
  "new_Set points = fold (\<lambda>point area. Set_add area point) points []"

text \<open>
  The addition of two numbers that hold integers: the exact sum, rounded to the nearest
  double, a tie going to the even significand (IEEE 754, below the overflow threshold).
  Doubles carry 53 significant bits: \<open>ulp m\<close> is the distance between neighbouring doubles
  at magnitude \<open>m\<close>, 1 below \<open>2\<^sup>5\<^sup>3 = 9007199254740992\<close> and doubling with each binade above.
\<close>

function ulp :: "int \<Rightarrow> int" where
  "ulp m = (if m < 9007199254740992 then 1 else 2 * ulp (m div 2))"
  by pat_completeness auto
termination
  by (relation "measure nat") auto

declare ulp.simps [simp del]

definition Number_round :: "int \<Rightarrow> int" where
  "Number_round n =
     (let u = ulp \<bar>n\<bar>; q = \<bar>n\<bar> div u; r = \<bar>n\<bar> mod u in
      sgn n * ((if 2 * r < u then q else if u < 2 * r then q + 1 else if even q then q else q + 1) * u))"

definition Number_add :: "int \<Rightarrow> int \<Rightarrow> int" where
  "Number_add a b = Number_round (a + b)"

definition getCoveredArea :: "Piece \<Rightarrow> string list" where
  "getCoveredArea piece =
     (let topLeft = getTopLeft piece; dims = getDimensions piece in
      fold (\<lambda>i area.
              fold (\<lambda>j area. Set_add area
                      (JSON_stringify \<lparr>px = Number_add (px topLeft) i, py = Number_add (py topLeft) j\<rparr>))
                [0 .. height dims - 1] area)
        [0 .. width dims - 1] [])"

definition areasOverlap :: "string list \<Rightarrow> string list \<Rightarrow> bool" where
  "areasOverlap area1 area2 = (Set_size (new_Set (filter (\<lambda>point. Set_has area2 point) area1)) > 0)"

fun intersects :: "Piece \<Rightarrow> Piece \<Rightarrow> bool" where
  "intersects (PSquare s) other = areasOverlap (getCoveredArea (PSquare s)) (getCoveredArea other)"
| "intersects (VerticalRect topLeft ident) other =
     areasOverlap (getCoveredArea (VerticalRect topLeft ident)) (getCoveredArea other)"
| "intersects (HorizontalRect topLeft ident) other =
     areasOverlap (getCoveredArea (HorizontalRect topLeft ident)) (getCoveredArea other)"
| "intersects (SunSquare topLeft ident) other =
     areasOverlap (getCoveredArea (SunSquare topLeft ident)) (getCoveredArea other)"

section \<open>The board and the driver (App.tsx)\<close>

definition SUN_ID :: int where
  "SUN_ID = 1"

definition initialPieces :: "Piece list" where
  "initialPieces =
     [VerticalRect \<lparr>px = 0, py = 0\<rparr> 0,
      SunSquare \<lparr>px = 1, py = 0\<rparr> SUN_ID,
      VerticalRect \<lparr>px = 3, py = 0\<rparr> 2,
      HorizontalRect \<lparr>px = 1, py = 2\<rparr> 3,
      VerticalRect \<lparr>px = 0, py = 3\<rparr> 4,
      PSquare (Square \<lparr>px = 1, py = 3\<rparr> 5),
      PSquare (Square \<lparr>px = 2, py = 3\<rparr> 6),
      VerticalRect \<lparr>px = 3, py = 3\<rparr> 7,
      PSquare (Square \<lparr>px = 1, py = 4\<rparr> 8),
      PSquare (Square \<lparr>px = 2, py = 4\<rparr> 9)]"

text \<open>
  A \<open>Map<number, Piece>\<close> iterates in insertion order and holds each key once: a list of
  entries. \<open>Map_set\<close> overwrites the value of a key in place or appends a new entry;
  \<open>Map_get\<close> is the lookup, \<open>None\<close> for \<open>undefined\<close>.
\<close>

type_synonym PieceMap = "(int \<times> Piece) list"

definition Map_set :: "PieceMap \<Rightarrow> int \<Rightarrow> Piece \<Rightarrow> PieceMap" where
  "Map_set m k v =
     (if k \<in> fst ` set m then map (\<lambda>(k', v'). if k' = k then (k', v) else (k', v')) m
      else m @ [(k, v)])"

definition Map_get :: "PieceMap \<Rightarrow> int \<Rightarrow> Piece option" where
  "Map_get m k = map_of m k"

definition initializePieces :: PieceMap where
  "initializePieces = fold (\<lambda>piece initialMap. Map_set initialMap (getID piece) piece) initialPieces []"

datatype error = PieceNotFound int

definition findPiece :: "PieceMap \<Rightarrow> int \<Rightarrow> error + Piece" where
  "findPiece pieces pieceID =
     (case Map_get pieces pieceID of
        None \<Rightarrow> Inl (PieceNotFound pieceID)
      | Some piece \<Rightarrow> Inr piece)"

definition checkWinCondition :: "int \<Rightarrow> Piece \<Rightarrow> MoveDirection \<Rightarrow> bool" where
  "checkWinCondition pieceID piece direction =
     (if direction = Down \<and> pieceID = SUN_ID
      then px (getTopLeft piece) = 1 \<and> py (getTopLeft piece) = GRID_HEIGHT - 2
      else False)"

text \<open>The loop of \<open>canMoveWithOthers\<close> over the entries, with its early return.\<close>

fun canMoveWithOthers_loop :: "PieceMap \<Rightarrow> int \<Rightarrow> Piece \<Rightarrow> bool" where
  "canMoveWithOthers_loop [] movedPieceID movedPiece = True"
| "canMoveWithOthers_loop ((otherPieceID, otherPiece) # rest) movedPieceID movedPiece =
     (if otherPieceID \<noteq> movedPieceID \<and> intersects otherPiece movedPiece then False
      else canMoveWithOthers_loop rest movedPieceID movedPiece)"

definition canMoveWithOthers :: "PieceMap \<Rightarrow> int \<Rightarrow> MoveDirection \<Rightarrow> error + bool" where
  "canMoveWithOthers pieces pieceID direction =
     (case findPiece pieces pieceID of
        Inl e \<Rightarrow> Inl e
      | Inr piece \<Rightarrow>
          if checkWinCondition pieceID piece direction then Inr True
          else if \<not> canMove piece direction then Inr False
          else Inr (canMoveWithOthers_loop pieces (getID (move piece direction)) (move piece direction)))"

text \<open>
  \<open>onMove\<close> returns nothing; it may raise the alert and it replaces the state \<open>pieces\<close>.
  The model returns whether the alert was raised and the map that \<open>setPieces\<close> installs
  (its updater runs on the current map).
\<close>

definition onMove :: "PieceMap \<Rightarrow> int \<Rightarrow> MoveDirection \<Rightarrow> error + (bool \<times> PieceMap)" where
  "onMove pieces pieceID direction =
     (case findPiece pieces pieceID of
        Inl e \<Rightarrow> Inl e
      | Inr piece \<Rightarrow>
          (let alert = checkWinCondition pieceID piece direction;
               movedPiece = move piece direction;
               movedPieceID = getID movedPiece
           in Inr (alert,
                fold (\<lambda>(otherPieceID, otherPiece) updatedPieces.
                        if otherPieceID = movedPieceID
                        then Map_set updatedPieces movedPieceID movedPiece
                        else Map_set updatedPieces otherPieceID otherPiece)
                  pieces [])))"

text \<open>
  The arrows of the selected piece: \<open>PieceControls\<close> renders the arrow of a direction only
  when its \<open>canMove\<close> property is true there, and an arrow's click handler is the only
  caller of \<open>onMove\<close>. The result lists the directions whose arrows are rendered.
\<close>

definition PieceControls :: "(MoveDirection \<Rightarrow> bool) \<Rightarrow> MoveDirection list" where
  "PieceControls canMoveProp =
     (if canMoveProp Up then [Up] else []) @
     (if canMoveProp Down then [Down] else []) @
     (if canMoveProp Left then [Left] else []) @
     (if canMoveProp Right then [Right] else [])"

text \<open>
  \<open>App\<close> gives the piece of key \<open>id\<close> the property
  \<open>canMove = (direction) => canMoveWithOthers(id, direction)\<close>; the keys it renders are
  the keys of the map, for which \<open>canMoveWithOthers\<close> does not throw.
\<close>

definition App_arrows :: "PieceMap \<Rightarrow> int \<Rightarrow> MoveDirection list" where
  "App_arrows pieces ident =
     PieceControls (\<lambda>direction. canMoveWithOthers pieces ident direction = Inr True)"

text \<open>
  A sequence of moves, each requested through a rendered arrow: the validator accepts the
  move on the current board, then \<open>onMove\<close> applies it. \<open>None\<close> when some move of the
  sequence is not accepted.
\<close>

fun acceptedMoves :: "PieceMap \<Rightarrow> (int \<times> MoveDirection) list \<Rightarrow> PieceMap option" where
  "acceptedMoves pieces [] = Some pieces"
| "acceptedMoves pieces ((pieceID, direction) # rest) =
     (if canMoveWithOthers pieces pieceID direction = Inr True
      then (case onMove pieces pieceID direction of
              Inl e \<Rightarrow> None
            | Inr (alert, pieces') \<Rightarrow> acceptedMoves pieces' rest)
      else None)"

text \<open>A sequence of calls of \<open>onMove\<close>, validated or not; it stops at the first exception.\<close>

fun driverMoves :: "PieceMap \<Rightarrow> (int \<times> MoveDirection) list \<Rightarrow> error + PieceMap" where
  "driverMoves pieces [] = Inr pieces"
| "driverMoves pieces ((pieceID, direction) # rest) =
     (case onMove pieces pieceID direction of
        Inl e \<Rightarrow> Inl e
      | Inr (alert, pieces') \<Rightarrow> driverMoves pieces' rest)"

section \<open>Notions of the specification\<close>

text \<open>
  The occupied-cell set of a piece, in the specification's words: the Cartesian product of
  \<open>width\<close> consecutive x-offsets and \<open>height\<close> consecutive y-offsets from the top-left.
\<close>

definition occupiedCells :: "Piece \<Rightarrow> (int \<times> int) set" where
  "occupiedCells piece =
     {px (getTopLeft piece) ..< px (getTopLeft piece) + width (getDimensions piece)} \<times>
     {py (getTopLeft piece) ..< py (getTopLeft piece) + height (getDimensions piece)}"

text \<open>The cells of the grid, \<open>[0, GRID_WIDTH) \<times> [0, GRID_HEIGHT)\<close>.\<close>

definition grid :: "(int \<times> int) set" where
  "grid = {0 ..< GRID_WIDTH} \<times> {0 ..< GRID_HEIGHT}"

text \<open>
  A piece at a safe position: both coordinates of its top-left are safe integers, of
  magnitude at most \<open>2\<^sup>5\<^sup>3 - 1\<close>, where a double holds every integer exactly.
\<close>

definition safePiece :: "Piece \<Rightarrow> bool" where
  "safePiece piece =
     (\<bar>px (getTopLeft piece)\<bar> < 9007199254740992 \<and> \<bar>py (getTopLeft piece)\<bar> < 9007199254740992)"

text \<open>One step of a cell in a direction: up \<open>y - 1\<close>, down \<open>y + 1\<close>, left \<open>x - 1\<close>, right \<open>x + 1\<close>.\<close>

fun translateCell :: "MoveDirection \<Rightarrow> int \<times> int \<Rightarrow> int \<times> int" where
  "translateCell Up (a, b) = (a, b - 1)"
| "translateCell Down (a, b) = (a, b + 1)"
| "translateCell Left (a, b) = (a - 1, b)"
| "translateCell Right (a, b) = (a + 1, b)"

fun opposite :: "MoveDirection \<Rightarrow> MoveDirection" where
  "opposite Up = Down"
| "opposite Down = Up"
| "opposite Left = Right"
| "opposite Right = Left"

text \<open>
  A board is a map from piece identity to piece: each key is held once (as a \<open>Map\<close> does)
  and is the identity of its piece.
\<close>

definition keyConsistent :: "PieceMap \<Rightarrow> bool" where
  "keyConsistent pieces = list_all (\<lambda>(k, piece). getID piece = k) pieces"

definition isBoard :: "PieceMap \<Rightarrow> bool" where
  "isBoard pieces = (distinct (map fst pieces) \<and> keyConsistent pieces)"

text \<open>
  The grid with the row below it: the win exit takes the Sun one row out of the grid.
\<close>

definition exitGrid :: "(int \<times> int) set" where
  "exitGrid = {0 ..< GRID_WIDTH} \<times> {0 ..< GRID_HEIGHT + 1}"

text \<open>
  The invariant of the boards that accepted moves reach: a board whose pieces are pairwise
  disjoint, all inside the grid but the Sun, which is two cells high and inside the grid or
  the row below it.
\<close>

definition piecesDisjoint :: "PieceMap \<Rightarrow> bool" where
  "piecesDisjoint pieces =
     (\<forall>(k, p) \<in> set pieces. \<forall>(j, q) \<in> set pieces.
        k \<noteq> j \<longrightarrow> occupiedCells p \<inter> occupiedCells q = {})"

definition piecesPlaced :: "PieceMap \<Rightarrow> bool" where
  "piecesPlaced pieces =
     (\<forall>(k, p) \<in> set pieces.
        if k = SUN_ID then height (getDimensions p) = 2 \<and> occupiedCells p \<subseteq> exitGrid
        else occupiedCells p \<subseteq> grid)"

definition boardInv :: "PieceMap \<Rightarrow> bool" where
  "boardInv pieces = (isBoard pieces \<and> piecesDisjoint pieces \<and> piecesPlaced pieces)"

section \<open>Stringified positions are faithful\<close>

text \<open>Reading a digit string back: the inverse that shows the decimal notation injective.\<close>

definition digitVal :: "char \<Rightarrow> nat" where
  "digitVal c = of_char c - 48"

definition stringToNat :: "string \<Rightarrow> nat" where
  "stringToNat s = foldl (\<lambda>a c. 10 * a + digitVal c) 0 s"

definition cellString :: "int \<times> int \<Rightarrow> string" where
  "cellString c = JSON_stringify \<lparr>px = fst c, py = snd c\<rparr>"

lemma digitVal_digitChar: "d < 10 \<Longrightarrow> digitVal (digitChar d) = d"
  by (simp add: digitVal_def digitChar_def)

lemma stringToNat_natToString: "stringToNat (natToString n) = n"
proof (induction n rule: natToString.induct)
  case (1 n)
  show ?case
  proof (cases "n < 10")
    case True
    then show ?thesis
      by (subst natToString.simps) (simp add: stringToNat_def digitVal_digitChar)
  next
    case False
    with 1 have "stringToNat (natToString (n div 10)) = n div 10" by simp
    with False show ?thesis
      by (subst natToString.simps) (simp add: stringToNat_def digitVal_digitChar)
  qed
qed

lemma natToString_inj: "natToString m = natToString n \<Longrightarrow> m = n"
  by (metis stringToNat_natToString)

lemma of_char_digitChar: "d < 10 \<Longrightarrow> of_char (digitChar d) = 48 + d"
  by (simp add: digitChar_def)

lemma digitChar_not_minus: "d < 10 \<Longrightarrow> digitChar d \<noteq> CHR ''-''"
proof
  assume d: "d < 10" and e: "digitChar d = CHR ''-''"
  have "(of_char (digitChar d) :: nat) = 48 + d" using d by (rule of_char_digitChar)
  with e have "(of_char (CHR ''-'') :: nat) = 48 + d" by simp
  then show False by simp
qed

lemma digitChar_not_comma: "d < 10 \<Longrightarrow> digitChar d \<noteq> CHR '',''"
proof
  assume d: "d < 10" and e: "digitChar d = CHR '',''"
  have "(of_char (digitChar d) :: nat) = 48 + d" using d by (rule of_char_digitChar)
  with e have "(of_char (CHR '','') :: nat) = 48 + d" by simp
  then show False by simp
qed


lemma natToString_chars: "c \<in> set (natToString n) \<Longrightarrow> \<exists>d<10. c = digitChar d"
proof (induction n rule: natToString.induct)
  case (1 n)
  show ?case
  proof (cases "n < 10")
    case True
    with "1.prems" show ?thesis
      by (subst (asm) natToString.simps) auto
  next
    case False
    from "1.prems" False have "c \<in> set (natToString (n div 10)) \<or> c = digitChar (n mod 10)"
      by (subst (asm) natToString.simps) auto
    then show ?thesis
    proof
      assume "c \<in> set (natToString (n div 10))"
      with 1 False show ?thesis by simp
    next
      assume "c = digitChar (n mod 10)"
      moreover have "n mod 10 < 10" by simp
      ultimately show ?thesis by blast
    qed
  qed
qed

lemma minus_notin_natToString: "CHR ''-'' \<notin> set (natToString n)"
proof
  assume "CHR ''-'' \<in> set (natToString n)"
  then obtain d where "d < 10" and "CHR ''-'' = digitChar d"
    using natToString_chars by metis
  then show False using digitChar_not_minus [of d] by simp
qed

lemma comma_notin_natToString: "CHR '','' \<notin> set (natToString n)"
proof
  assume "CHR '','' \<in> set (natToString n)"
  then obtain d where "d < 10" and "CHR '','' = digitChar d"
    using natToString_chars by metis
  then show False using digitChar_not_comma [of d] by simp
qed

lemma comma_notin_numberToString: "CHR '','' \<notin> set (numberToString i)"
  by (simp add: numberToString_def comma_notin_natToString)

lemma numberToString_inj: "numberToString i = numberToString j \<Longrightarrow> i = j"
proof -
  assume e: "numberToString i = numberToString j"
  have neg: "CHR ''-'' # natToString m \<noteq> natToString n" for m n
    using minus_notin_natToString [of n] by (metis list.set_intros(1))
  have neg': "natToString n \<noteq> CHR ''-'' # natToString m" for m n
    using neg [of m n] by metis
  show ?thesis
  proof (cases "i < 0")
    case True
    with e neg neg' have j: "j < 0" by (auto simp: numberToString_def split: if_splits)
    with True e have "nat (- i) = nat (- j)"
      by (auto simp: numberToString_def dest: natToString_inj)
    with True j show ?thesis by simp
  next
    case False
    with e neg neg' have j: "\<not> j < 0" by (auto simp: numberToString_def split: if_splits)
    with False e have "nat i = nat j"
      by (auto simp: numberToString_def dest: natToString_inj)
    with False j show ?thesis by simp
  qed
qed

lemma JSON_stringify_inj: "JSON_stringify p = JSON_stringify q \<Longrightarrow> p = q"
proof -
  assume "JSON_stringify p = JSON_stringify q"
  then have \<open>numberToString (px p) @ CHR '','' # (''"y":'' @ numberToString (py p) @ ''}'')
           = numberToString (px q) @ CHR '','' # (''"y":'' @ numberToString (py q) @ ''}'')\<close>
    by (simp add: JSON_stringify_def)
  then have "numberToString (px p) = numberToString (px q) \<and>
             numberToString (py p) = numberToString (py q)"
    by (simp add: append_Cons_eq_iff comma_notin_numberToString)
  then have "px p = px q \<and> py p = py q"
    by (auto dest: numberToString_inj)
  then show ?thesis by simp
qed


lemma JSON_stringify_eq_iff: "JSON_stringify p = JSON_stringify q \<longleftrightarrow> p = q"
  by (auto dest: JSON_stringify_inj)

lemma set_fold_Set_add:
  "set (fold (\<lambda>j area. Set_add area (g j)) js acc) = set acc \<union> g ` set js"
  by (induction js arbitrary: acc) (auto simp: Set_add_def)

lemma set_fold_fold_Set_add:
  "set (fold (\<lambda>i area. fold (\<lambda>j area. Set_add area (g i j)) js area) is acc)
     = set acc \<union> (\<Union>i\<in>set is. g i ` set js)"
  by (induction "is" arbitrary: acc) (auto simp: set_fold_Set_add)

lemma cellString_inj: "inj cellString"
proof (rule injI)
  fix c d :: "int \<times> int"
  assume "cellString c = cellString d"
  then have "\<lparr>px = fst c, py = snd c\<rparr> = \<lparr>px = fst d, py = snd d\<rparr>"
    unfolding cellString_def by (rule JSON_stringify_inj)
  then show "c = d" by (simp add: prod_eq_iff)
qed

lemma ulp_small: "m < 9007199254740992 \<Longrightarrow> ulp m = 1"
  by (subst ulp.simps) simp

lemma ulp_next: "9007199254740992 \<le> m \<Longrightarrow> m < 18014398509481984 \<Longrightarrow> ulp m = 2"
  by (subst ulp.simps) (simp add: ulp_small)

lemma Number_round_exact: "\<bar>n\<bar> \<le> 9007199254740992 \<Longrightarrow> Number_round n = n"
proof (cases "\<bar>n\<bar> < 9007199254740992")
  case True
  then have "ulp \<bar>n\<bar> = 1" by (rule ulp_small)
  then show ?thesis by (simp add: Number_round_def Let_def mult_sgn_abs)
next
  case False
  assume "\<bar>n\<bar> \<le> 9007199254740992"
  with False have a: "\<bar>n\<bar> = 9007199254740992" by simp
  then have "ulp \<bar>n\<bar> = 2" by (simp add: ulp_next)
  with a show ?thesis by (simp add: Number_round_def Let_def mult_sgn_abs [of n, unfolded a])
qed

lemma Number_add_exact: "\<bar>a + b\<bar> \<le> 9007199254740992 \<Longrightarrow> Number_add a b = a + b"
  by (simp add: Number_add_def Number_round_exact)

lemma getDimensions_pos: "0 < width (getDimensions piece) \<and> 0 < height (getDimensions piece)"
proof (cases piece)
  case (PSquare s)
  then show ?thesis by (cases s) simp
qed simp_all

lemma getDimensions_le2: "width (getDimensions piece) \<le> 2 \<and> height (getDimensions piece) \<le> 2"
proof (cases piece)
  case (PSquare s)
  then show ?thesis by (cases s) simp
qed simp_all

lemma set_getCoveredArea_rounded:
  "set (getCoveredArea piece) =
     (\<Union>i\<in>{0 .. width (getDimensions piece) - 1}.
        (\<lambda>j. cellString (Number_add (px (getTopLeft piece)) i, Number_add (py (getTopLeft piece)) j)) `
          {0 .. height (getDimensions piece) - 1})"
  unfolding getCoveredArea_def Let_def set_fold_fold_Set_add cellString_def
  by simp

lemma set_getCoveredArea:
  assumes "safePiece piece"
  shows "set (getCoveredArea piece) = cellString ` occupiedCells piece"
proof -
  define x0 y0 w h where "x0 = px (getTopLeft piece)" and "y0 = py (getTopLeft piece)"
    and "w = width (getDimensions piece)" and "h = height (getDimensions piece)"
  from assms have safe: "\<bar>x0\<bar> < 9007199254740992" "\<bar>y0\<bar> < 9007199254740992"
    by (simp_all add: safePiece_def x0_def y0_def)
  have small: "w \<le> 2" "h \<le> 2"
    using getDimensions_le2 [of piece] by (simp_all add: w_def h_def)
  have ex: "Number_add x0 i = x0 + i" if "i \<in> {0 .. w - 1}" for i
    using that safe small by (intro Number_add_exact) auto
  have ey: "Number_add y0 j = y0 + j" if "j \<in> {0 .. h - 1}" for j
    using that safe small by (intro Number_add_exact) auto
  have "set (getCoveredArea piece) =
      (\<Union>i\<in>{0 .. w - 1}. (\<lambda>j. cellString (Number_add x0 i, Number_add y0 j)) ` {0 .. h - 1})"
    unfolding set_getCoveredArea_rounded x0_def y0_def w_def h_def ..
  also have "\<dots> = (\<Union>i\<in>{0 .. w - 1}. (\<lambda>j. cellString (x0 + i, y0 + j)) ` {0 .. h - 1})"
    by (intro SUP_cong refl image_cong) (simp add: ex ey)
  finally have L: "set (getCoveredArea piece) =
      (\<Union>i\<in>{0 .. w - 1}. (\<lambda>j. cellString (x0 + i, y0 + j)) ` {0 .. h - 1})" .
  have R: "occupiedCells piece = {x0 ..< x0 + w} \<times> {y0 ..< y0 + h}"
    by (simp add: occupiedCells_def x0_def y0_def w_def h_def)
  have "(\<Union>i\<in>{0 .. w - 1}. (\<lambda>j. cellString (x0 + i, y0 + j)) ` {0 .. h - 1})
      = cellString ` ({x0 ..< x0 + w} \<times> {y0 ..< y0 + h})" (is "?A = ?B")
  proof (rule set_eqI)
    fix s
    show "s \<in> ?A \<longleftrightarrow> s \<in> ?B"
    proof
      assume "s \<in> ?A"
      then obtain i j where "0 \<le> i" "i \<le> w - 1" "0 \<le> j" "j \<le> h - 1"
        and s: "s = cellString (x0 + i, y0 + j)" by auto
      then have "(x0 + i, y0 + j) \<in> {x0 ..< x0 + w} \<times> {y0 ..< y0 + h}" by simp
      with s show "s \<in> ?B" by (rule_tac image_eqI)
    next
      assume "s \<in> ?B"
      then obtain a b where ab: "x0 \<le> a" "a < x0 + w" "y0 \<le> b" "b < y0 + h"
        and s: "s = cellString (a, b)" by auto
      have "a - x0 \<in> {0 .. w - 1}" "b - y0 \<in> {0 .. h - 1}" using ab by simp_all
      moreover have "s = cellString (x0 + (a - x0), y0 + (b - y0))" using s by simp
      ultimately show "s \<in> ?A" by blast
    qed
  qed
  with L R show ?thesis by simp
qed

lemma new_Set_empty_iff: "new_Set points = [] \<longleftrightarrow> points = []"
proof -
  have "set (new_Set points) = set points"
    unfolding new_Set_def using set_fold_Set_add [of "\<lambda>p. p" points "[]"] by simp
  then show ?thesis by (metis set_empty)
qed

lemma areasOverlap_iff: "areasOverlap area1 area2 \<longleftrightarrow> set area1 \<inter> set area2 \<noteq> {}"
proof -
  have "areasOverlap area1 area2 \<longleftrightarrow> filter (\<lambda>point. point \<in> set area2) area1 \<noteq> []"
    by (simp add: areasOverlap_def Set_size_def Set_has_def new_Set_empty_iff)
  also have "\<dots> \<longleftrightarrow> set area1 \<inter> set area2 \<noteq> {}"
    by (auto simp: filter_empty_conv)
  finally show ?thesis .
qed

lemma intersects_eq: "intersects piece other = areasOverlap (getCoveredArea piece) (getCoveredArea other)"
  by (cases piece) simp_all

declare intersects.simps [simp del]

lemma intersects_cells:
  "safePiece piece \<Longrightarrow> safePiece other \<Longrightarrow>
   intersects piece other \<longleftrightarrow> occupiedCells piece \<inter> occupiedCells other \<noteq> {}"
  by (simp add: intersects_eq areasOverlap_iff set_getCoveredArea
        image_Int [OF cellString_inj, symmetric])

lemma intersects_arith:
  "safePiece piece \<Longrightarrow> safePiece other \<Longrightarrow>
   intersects piece other \<longleftrightarrow>
     px (getTopLeft piece) < px (getTopLeft other) + width (getDimensions other) \<and>
     px (getTopLeft other) < px (getTopLeft piece) + width (getDimensions piece) \<and>
     py (getTopLeft piece) < py (getTopLeft other) + height (getDimensions other) \<and>
     py (getTopLeft other) < py (getTopLeft piece) + height (getDimensions piece) \<and>
     0 < width (getDimensions piece) \<and> 0 < height (getDimensions piece) \<and>
     0 < width (getDimensions other) \<and> 0 < height (getDimensions other)"
  unfolding occupiedCells_def [symmetric]
  by (simp add: intersects_cells)
     (auto simp: occupiedCells_def Times_Int_Times Int_atLeastLessThan)


section \<open>Moving a piece\<close>

lemma intersects_sym: "intersects piece other = intersects other piece"
  by (simp add: intersects_eq areasOverlap_iff Int_commute)

lemma getID_move: "getID (move piece direction) = getID piece"
proof (cases piece)
  case (PSquare s)
  then show ?thesis by (cases s) simp
qed simp_all

lemma getDimensions_move: "getDimensions (move piece direction) = getDimensions piece"
proof (cases piece)
  case (PSquare s)
  then show ?thesis by (cases s) simp
qed simp_all

lemma getTopLeft_move: "getTopLeft (move piece direction) = movePosition (getTopLeft piece) direction"
proof (cases piece)
  case (PSquare s)
  then show ?thesis by (cases s) simp
qed (simp_all add: VerticalRect_squares_def HorizontalRect_squares_def SunSquare_squares_def)

lemma translateCell_opposite:
  "translateCell direction (translateCell (opposite direction) z) = z"
  "translateCell (opposite direction) (translateCell direction z) = z"
  by (cases direction; cases z; simp)+

lemma in_translateCell_image:
  "z \<in> translateCell direction ` S \<longleftrightarrow> translateCell (opposite direction) z \<in> S"
proof
  assume "z \<in> translateCell direction ` S"
  then obtain c where "c \<in> S" and "z = translateCell direction c" by blast
  then show "translateCell (opposite direction) z \<in> S"
    by (simp add: translateCell_opposite)
next
  assume "translateCell (opposite direction) z \<in> S"
  then have "translateCell direction (translateCell (opposite direction) z) \<in> translateCell direction ` S"
    by (rule imageI)
  then show "z \<in> translateCell direction ` S"
    by (simp add: translateCell_opposite)
qed

lemma occupiedCells_move: "occupiedCells (move piece direction) = translateCell direction ` occupiedCells piece"
proof (rule set_eqI)
  fix z :: "int \<times> int"
  obtain a b where z: "z = (a, b)" by (cases z)
  show "z \<in> occupiedCells (move piece direction) \<longleftrightarrow> z \<in> translateCell direction ` occupiedCells piece"
    unfolding in_translateCell_image occupiedCells_def getTopLeft_move getDimensions_move z
    by (cases direction) auto
qed

lemma box_subset:
  fixes a b c d :: int
  assumes "a < b" "c < d"
  shows "{a ..< b} \<times> {c ..< d} \<subseteq> {a' ..< b'} \<times> {c' ..< d'} \<longleftrightarrow> a' \<le> a \<and> b \<le> b' \<and> c' \<le> c \<and> d \<le> d'"
proof
  assume s: "{a ..< b} \<times> {c ..< d} \<subseteq> {a' ..< b'} \<times> {c' ..< d'}"
  from assms have "(a, c) \<in> {a ..< b} \<times> {c ..< d}" "(b - 1, d - 1) \<in> {a ..< b} \<times> {c ..< d}"
    by simp_all
  with s have "(a, c) \<in> {a' ..< b'} \<times> {c' ..< d'}" "(b - 1, d - 1) \<in> {a' ..< b'} \<times> {c' ..< d'}"
    by blast+
  then show "a' \<le> a \<and> b \<le> b' \<and> c' \<le> c \<and> d \<le> d'" by simp
next
  assume "a' \<le> a \<and> b \<le> b' \<and> c' \<le> c \<and> d \<le> d'"
  then show "{a ..< b} \<times> {c ..< d} \<subseteq> {a' ..< b'} \<times> {c' ..< d'}" by auto
qed

lemma occupiedCells_subset:
  "occupiedCells piece \<subseteq> {a' ..< b'} \<times> {c' ..< d'} \<longleftrightarrow>
     a' \<le> px (getTopLeft piece) \<and> px (getTopLeft piece) + width (getDimensions piece) \<le> b' \<and>
     c' \<le> py (getTopLeft piece) \<and> py (getTopLeft piece) + height (getDimensions piece) \<le> d'"
  unfolding occupiedCells_def using getDimensions_pos [of piece] by (subst box_subset) simp_all

lemma canMove_arith:
  "canMove piece direction \<longleftrightarrow>
     (case direction of
        Up \<Rightarrow> 0 < py (getTopLeft piece)
      | Down \<Rightarrow> py (getTopLeft piece) + height (getDimensions piece) < 5
      | Left \<Rightarrow> 0 < px (getTopLeft piece)
      | Right \<Rightarrow> px (getTopLeft piece) + width (getDimensions piece) < 4)"
proof (cases piece)
  case (PSquare s)
  then show ?thesis by (cases s; cases direction) (auto simp: GRID_HEIGHT_def GRID_WIDTH_def)
qed (cases direction;
     auto simp: VerticalRect_squares_def HorizontalRect_squares_def SunSquare_squares_def
       GRID_HEIGHT_def GRID_WIDTH_def)+

section \<open>The map of pieces and the driver\<close>

lemma Map_set_absent: "k \<notin> fst ` set m \<Longrightarrow> Map_set m k v = m @ [(k, v)]"
  by (simp add: Map_set_def)

lemma Map_set_present:
  "k \<in> fst ` set m \<Longrightarrow> Map_set m k v = map (\<lambda>(k', v'). if k' = k then (k', v) else (k', v')) m"
  by (simp add: Map_set_def)

lemma map_fst_replace:
  "map fst (map (\<lambda>(k', v'). if k' = k then (k', v) else (k', v')) m) = map fst m"
  by (induction m) auto

lemma map_of_replace_other:
  "j \<noteq> k \<Longrightarrow> map_of (map (\<lambda>(k', v'). if k' = k then (k', v) else (k', v')) m) j = map_of m j"
  by (induction m) (simp_all add: case_prod_beta)

lemma map_of_replace_same:
  "k \<in> fst ` set m \<Longrightarrow> map_of (map (\<lambda>(k', v'). if k' = k then (k', v) else (k', v')) m) k = Some v"
  by (induction m) (auto simp: case_prod_beta)

lemma Map_get_Map_set: "Map_get (Map_set m k v) j = (if j = k then Some v else Map_get m j)"
proof (cases "k \<in> fst ` set m")
  case True
  then show ?thesis
    by (simp add: Map_get_def Map_set_present map_of_replace_other map_of_replace_same)
next
  case False
  then have "map_of m k = None" by (simp add: map_of_eq_None_iff)
  with False show ?thesis
    by (auto simp: Map_get_def Map_set_absent map_add_def split: option.splits)
qed

lemma Map_get_in_set: "Map_get m k = Some v \<Longrightarrow> (k, v) \<in> set m"
  unfolding Map_get_def by (rule map_of_SomeD)

lemma Map_get_key: "Map_get m k = Some v \<Longrightarrow> k \<in> fst ` set m"
  by (drule Map_get_in_set) force

lemma in_set_Map_get: "distinct (map fst m) \<Longrightarrow> (k, v) \<in> set m \<Longrightarrow> Map_get m k = Some v"
  unfolding Map_get_def by simp

lemma keyConsistent_iff: "keyConsistent pieces \<longleftrightarrow> (\<forall>(k, piece) \<in> set pieces. getID piece = k)"
  by (auto simp: keyConsistent_def list_all_iff)

lemma keyConsistent_Map_get: "keyConsistent pieces \<Longrightarrow> Map_get pieces k = Some piece \<Longrightarrow> getID piece = k"
  by (auto simp: keyConsistent_iff dest: Map_get_in_set)

lemma onMove_fold:
  "distinct (map fst pieces) \<Longrightarrow> fst ` set acc \<inter> fst ` set pieces = {} \<Longrightarrow>
   fold (\<lambda>(otherPieceID, otherPiece) updatedPieces.
           if otherPieceID = movedPieceID
           then Map_set updatedPieces movedPieceID movedPiece
           else Map_set updatedPieces otherPieceID otherPiece) pieces acc
   = acc @ map (\<lambda>(k', v'). if k' = movedPieceID then (k', movedPiece) else (k', v')) pieces"
proof (induction pieces arbitrary: acc)
  case Nil
  then show ?case by simp
next
  case (Cons e pieces)
  obtain k v where e: "e = (k, v)" by (cases e)
  from Cons.prems e have k: "k \<notin> fst ` set acc" and d: "distinct (map fst pieces)"
    and kp: "k \<notin> fst ` set pieces" by auto
  let ?x = "if k = movedPieceID then movedPiece else v"
  have step: "(if k = movedPieceID then Map_set acc movedPieceID movedPiece else Map_set acc k v)
      = acc @ [(k, ?x)]"
  proof (cases "k = movedPieceID")
    case True
    with k have "movedPieceID \<notin> fst ` set acc" by simp
    with True show ?thesis by (simp add: Map_set_absent)
  next
    case False
    with k show ?thesis by (simp add: Map_set_absent)
  qed
  have disj: "fst ` set (acc @ [(k, ?x)]) \<inter> fst ` set pieces = {}"
    using Cons.prems kp e by auto
  show ?case
    unfolding e using Cons.IH [OF d disj] step by simp
qed

lemma onMove_isBoard:
  assumes "isBoard pieces" and "Map_get pieces pieceID = Some piece"
  shows "onMove pieces pieceID direction =
           Inr (checkWinCondition pieceID piece direction, Map_set pieces pieceID (move piece direction))"
proof -
  from assms have d: "distinct (map fst pieces)" and g: "getID piece = pieceID"
    by (auto simp: isBoard_def dest: keyConsistent_Map_get)
  from assms(2) have k: "pieceID \<in> fst ` set pieces" by (rule Map_get_key)
  have "fold (\<lambda>(otherPieceID, otherPiece) updatedPieces.
           if otherPieceID = getID (move piece direction)
           then Map_set updatedPieces (getID (move piece direction)) (move piece direction)
           else Map_set updatedPieces otherPieceID otherPiece) pieces []
      = Map_set pieces pieceID (move piece direction)"
    unfolding getID_move g
    using onMove_fold [OF d, of "[]" pieceID "move piece direction"]
    by (simp add: Map_set_present [OF k])
  with assms(2) show ?thesis
    by (simp add: onMove_def findPiece_def Let_def)
qed

lemma keyConsistent_Map_set:
  "keyConsistent m \<Longrightarrow> getID v = k \<Longrightarrow> keyConsistent (Map_set m k v)"
  by (auto simp: keyConsistent_def Map_set_def list_all_iff split: if_splits)

lemma keyConsistent_onMove_fold:
  "keyConsistent pieces \<Longrightarrow> keyConsistent acc \<Longrightarrow>
   keyConsistent (fold (\<lambda>(otherPieceID, otherPiece) updatedPieces.
           if otherPieceID = getID movedPiece
           then Map_set updatedPieces (getID movedPiece) movedPiece
           else Map_set updatedPieces otherPieceID otherPiece) pieces acc)"
proof (induction pieces arbitrary: acc)
  case Nil
  then show ?case by simp
next
  case (Cons e pieces)
  obtain k v where e: "e = (k, v)" by (cases e)
  from Cons.prems e have kv: "getID v = k" and rest: "keyConsistent pieces"
    by (simp_all add: keyConsistent_def)
  show ?case
    unfolding e using Cons.IH [OF rest] Cons.prems(2) kv
    by (simp add: keyConsistent_Map_set)
qed

lemma keyConsistent_onMove:
  "keyConsistent pieces \<Longrightarrow> onMove pieces pieceID direction = Inr (alert, pieces') \<Longrightarrow>
   keyConsistent pieces'"
  using keyConsistent_onMove_fold [of pieces "[]"]
  by (auto simp: onMove_def findPiece_def Let_def keyConsistent_def [of "[]"] split: option.splits)

lemma keyConsistent_driverMoves:
  "keyConsistent pieces \<Longrightarrow> driverMoves pieces ms = Inr pieces' \<Longrightarrow> keyConsistent pieces'"
proof (induction ms arbitrary: pieces)
  case Nil
  then show ?case by simp
next
  case (Cons m ms)
  obtain k d where m: "m = (k, d)" by (cases m)
  from Cons.prems(2) m obtain alert mid where
    step: "onMove pieces k d = Inr (alert, mid)" and rest: "driverMoves mid ms = Inr pieces'"
    by (auto split: sum.splits)
  from Cons.prems(1) step have "keyConsistent mid" by (rule keyConsistent_onMove)
  then show ?case using rest by (rule Cons.IH)
qed

lemma initializePieces_eq:
  "initializePieces =
     [(0, VerticalRect \<lparr>px = 0, py = 0\<rparr> 0),
      (1, SunSquare \<lparr>px = 1, py = 0\<rparr> 1),
      (2, VerticalRect \<lparr>px = 3, py = 0\<rparr> 2),
      (3, HorizontalRect \<lparr>px = 1, py = 2\<rparr> 3),
      (4, VerticalRect \<lparr>px = 0, py = 3\<rparr> 4),
      (5, PSquare (Square \<lparr>px = 1, py = 3\<rparr> 5)),
      (6, PSquare (Square \<lparr>px = 2, py = 3\<rparr> 6)),
      (7, VerticalRect \<lparr>px = 3, py = 3\<rparr> 7),
      (8, PSquare (Square \<lparr>px = 1, py = 4\<rparr> 8)),
      (9, PSquare (Square \<lparr>px = 2, py = 4\<rparr> 9))]"
  by (simp add: initializePieces_def initialPieces_def SUN_ID_def Map_set_def)

lemma isBoard_initializePieces: "isBoard initializePieces"
  by (simp add: initializePieces_eq isBoard_def keyConsistent_def)

lemma canMoveWithOthers_loop_iff:
  "canMoveWithOthers_loop pieces movedPieceID movedPiece \<longleftrightarrow>
     (\<forall>(k, other) \<in> set pieces. k \<noteq> movedPieceID \<longrightarrow> \<not> intersects other movedPiece)"
  by (induction pieces movedPieceID movedPiece rule: canMoveWithOthers_loop.induct) auto

lemma checkWinCondition_eq:
  "checkWinCondition pieceID piece direction =
     (pieceID = 1 \<and> direction = Down \<and> getTopLeft piece = \<lparr>px = 1, py = 3\<rparr>)"
  by (cases "getTopLeft piece") (auto simp: checkWinCondition_def SUN_ID_def GRID_HEIGHT_def)

text \<open>The facts that evaluate the validator on a concrete board.\<close>

lemmas board_eval =
  initializePieces_eq canMoveWithOthers_def findPiece_def Map_get_def checkWinCondition_def
  canMove_arith intersects_arith safePiece_def getTopLeft_move getDimensions_move getID_move
  VerticalRect_squares_def HorizontalRect_squares_def SunSquare_squares_def
  SUN_ID_def GRID_HEIGHT_def GRID_WIDTH_def

section \<open>Accepted moves keep the pieces apart\<close>

lemma in_set_Map_set_present:
  assumes "k \<in> fst ` set m"
  shows "(j, q) \<in> set (Map_set m k v) \<longleftrightarrow> (j = k \<and> q = v) \<or> (j \<noteq> k \<and> (j, q) \<in> set m)"
proof -
  have "(j, q) \<in> set (map (\<lambda>(k', v'). if k' = k then (k', v) else (k', v')) m) \<longleftrightarrow>
        (j = k \<and> q = v \<and> k \<in> fst ` set m) \<or> (j \<noteq> k \<and> (j, q) \<in> set m)"
  proof (induction m)
    case Nil
    show ?case by simp
  next
    case (Cons e m)
    obtain a b where e: "e = (a, b)" by (cases e)
    show ?case unfolding e using Cons.IH by (cases "a = k") auto
  qed
  with assms show ?thesis by (simp add: Map_set_present)
qed

lemma isBoard_Map_set:
  assumes "isBoard m" and "k \<in> fst ` set m" and "getID v = k"
  shows "isBoard (Map_set m k v)"
proof -
  have "map fst (Map_set m k v) = map fst m"
    unfolding Map_set_present [OF assms(2)] by (rule map_fst_replace)
  with assms show ?thesis
    by (simp add: isBoard_def keyConsistent_Map_set)
qed

lemma accepted_cases:
  assumes "canMoveWithOthers pieces k d = Inr True"
  obtains piece where "Map_get pieces k = Some piece"
    and "checkWinCondition k piece d \<or>
         (canMove piece d \<and>
          (\<forall>(j, q) \<in> set pieces. j \<noteq> getID (move piece d) \<longrightarrow> \<not> intersects q (move piece d)))"
proof -
  from assms obtain piece where g: "Map_get pieces k = Some piece"
    by (auto simp: canMoveWithOthers_def findPiece_def split: option.splits)
  with assms have "checkWinCondition k piece d \<or>
         (canMove piece d \<and>
          canMoveWithOthers_loop pieces (getID (move piece d)) (move piece d))"
    by (auto simp: canMoveWithOthers_def findPiece_def split: if_splits)
  then have "checkWinCondition k piece d \<or>
         (canMove piece d \<and>
          (\<forall>(j, q) \<in> set pieces. j \<noteq> getID (move piece d) \<longrightarrow> \<not> intersects q (move piece d)))"
    by (simp only: canMoveWithOthers_loop_iff)
  with g show thesis by (rule that)
qed

lemma in_occupiedCells:
  "(a, c) \<in> occupiedCells piece \<longleftrightarrow>
     px (getTopLeft piece) \<le> a \<and> a < px (getTopLeft piece) + width (getDimensions piece) \<and>
     py (getTopLeft piece) \<le> c \<and> c < py (getTopLeft piece) + height (getDimensions piece)"
  by (simp add: occupiedCells_def)

lemma moved_in_grid:
  assumes "occupiedCells piece \<subseteq> grid" and "canMove piece d"
  shows "occupiedCells (move piece d) \<subseteq> grid"
  using assms getDimensions_pos [of piece]
  unfolding grid_def GRID_WIDTH_def GRID_HEIGHT_def occupiedCells_subset
    getTopLeft_move getDimensions_move canMove_arith
  by (cases d) auto

lemma moved_in_exitGrid:
  assumes "occupiedCells piece \<subseteq> exitGrid" and "canMove piece d"
  shows "occupiedCells (move piece d) \<subseteq> exitGrid"
  using assms getDimensions_pos [of piece]
  unfolding exitGrid_def GRID_WIDTH_def GRID_HEIGHT_def occupiedCells_subset
    getTopLeft_move getDimensions_move canMove_arith
  by (cases d) auto

lemma exit_in_exitGrid:
  assumes "checkWinCondition k piece d"
  shows "occupiedCells (move piece d) \<subseteq> exitGrid"
  using assms getDimensions_le2 [of piece]
  unfolding exitGrid_def GRID_WIDTH_def GRID_HEIGHT_def occupiedCells_subset
    getTopLeft_move getDimensions_move checkWinCondition_eq
  by auto

lemma exit_disjoint:
  assumes win: "checkWinCondition k piece d" and h: "height (getDimensions piece) = 2"
    and q: "occupiedCells q \<subseteq> grid" and dis: "occupiedCells piece \<inter> occupiedCells q = {}"
  shows "occupiedCells (move piece d) \<inter> occupiedCells q = {}"
proof (rule ccontr)
  assume "occupiedCells (move piece d) \<inter> occupiedCells q \<noteq> {}"
  then obtain a c where m: "(a, c) \<in> occupiedCells (move piece d)" and o: "(a, c) \<in> occupiedCells q"
    by auto
  from win have d: "d = Down" and tl: "px (getTopLeft piece) = 1" "py (getTopLeft piece) = 3"
    by (simp_all add: checkWinCondition_eq)
  from o q have "c < 5" by (auto simp: grid_def GRID_HEIGHT_def)
  with m d tl h have "(a, c) \<in> occupiedCells piece"
    by (simp add: in_occupiedCells getTopLeft_move getDimensions_move)
  with o dis show False by blast
qed


lemma cells_disjoint_iff:
  "safePiece piece \<Longrightarrow> safePiece other \<Longrightarrow>
   occupiedCells piece \<inter> occupiedCells other = {} \<longleftrightarrow> \<not> intersects piece other"
  by (simp add: intersects_cells)

lemma grid_subset_exitGrid: "grid \<subseteq> exitGrid"
  by (auto simp: grid_def exitGrid_def)

lemma in_exitGrid_safe: "occupiedCells piece \<subseteq> exitGrid \<Longrightarrow> safePiece piece"
  using getDimensions_pos [of piece]
  unfolding exitGrid_def GRID_WIDTH_def GRID_HEIGHT_def occupiedCells_subset safePiece_def
  by simp

lemma boardInv_step:
  assumes inv: "boardInv pieces" and ok: "canMoveWithOthers pieces k d = Inr True"
    and step: "onMove pieces k d = Inr (alert, pieces')"
  shows "boardInv pieces'"
proof -
  from inv have board: "isBoard pieces" and dis: "piecesDisjoint pieces"
    and placed: "piecesPlaced pieces" by (simp_all add: boardInv_def)
  from ok obtain piece where g: "Map_get pieces k = Some piece"
    and acc: "checkWinCondition k piece d \<or>
         (canMove piece d \<and>
          (\<forall>(j, q) \<in> set pieces. j \<noteq> getID (move piece d) \<longrightarrow> \<not> intersects q (move piece d)))"
    by (rule accepted_cases)
  from g have kin: "k \<in> fst ` set pieces" by (rule Map_get_key)
  from g have kp: "(k, piece) \<in> set pieces" by (rule Map_get_in_set)
  from board g have idk: "getID piece = k"
    by (auto simp: isBoard_def dest: keyConsistent_Map_get)
  from step have new: "pieces' = Map_set pieces k (move piece d)"
    by (simp add: onMove_isBoard [OF board g])
  note mem = in_set_Map_set_present [OF kin, of _ _ "move piece d"]
  have old_dis: "occupiedCells p \<inter> occupiedCells q = {}"
    if "(i, p) \<in> set pieces" "(j, q) \<in> set pieces" "i \<noteq> j" for i p j q
    using dis that unfolding piecesDisjoint_def by blast
  have old_placed: "occupiedCells q \<subseteq> grid" if "(j, q) \<in> set pieces" "j \<noteq> SUN_ID" for j q
    using placed that unfolding piecesPlaced_def by fastforce
  have old_sun: "height (getDimensions q) = 2 \<and> occupiedCells q \<subseteq> exitGrid"
    if "(SUN_ID, q) \<in> set pieces" for q
    using placed that unfolding piecesPlaced_def by fastforce
  have moved_placed:
    "if k = SUN_ID then height (getDimensions (move piece d)) = 2 \<and> occupiedCells (move piece d) \<subseteq> exitGrid
     else occupiedCells (move piece d) \<subseteq> grid"
  proof (cases "k = SUN_ID")
    case True
    with kp have h: "height (getDimensions piece) = 2" and e: "occupiedCells piece \<subseteq> exitGrid"
      using old_sun by blast+
    from acc have "occupiedCells (move piece d) \<subseteq> exitGrid"
    proof
      assume "checkWinCondition k piece d"
      then show ?thesis by (rule exit_in_exitGrid)
    next
      assume "canMove piece d \<and>
          (\<forall>(j, q) \<in> set pieces. j \<noteq> getID (move piece d) \<longrightarrow> \<not> intersects q (move piece d))"
      with e show ?thesis by (intro moved_in_exitGrid) simp_all
    qed
    with True h show ?thesis by (simp add: getDimensions_move)
  next
    case False
    then have "\<not> checkWinCondition k piece d" by (simp add: checkWinCondition_eq SUN_ID_def)
    with acc have "canMove piece d" by blast
    moreover from kp False have "occupiedCells piece \<subseteq> grid" using old_placed by blast
    ultimately have "occupiedCells (move piece d) \<subseteq> grid" by (intro moved_in_grid)
    with False show ?thesis by simp
  qed
  have old_safe: "safePiece q" if "(j, q) \<in> set pieces" for j q
  proof (cases "j = SUN_ID")
    case True
    with that old_sun [of q] show ?thesis by (intro in_exitGrid_safe) simp
  next
    case False
    with that old_placed [of j q] grid_subset_exitGrid show ?thesis
      by (intro in_exitGrid_safe) blast
  qed
  have moved_safe: "safePiece (move piece d)"
    using moved_placed grid_subset_exitGrid
    by (intro in_exitGrid_safe) (auto split: if_splits)
  have moved_dis: "occupiedCells (move piece d) \<inter> occupiedCells q = {}"
    if jq: "(j, q) \<in> set pieces" and jk: "j \<noteq> k" for j q
  proof (cases "checkWinCondition k piece d")
    case True
    then have sun: "k = SUN_ID" by (simp add: checkWinCondition_eq SUN_ID_def)
    with kp have "height (getDimensions piece) = 2" using old_sun by blast
    moreover from jq jk sun have "occupiedCells q \<subseteq> grid" using old_placed by blast
    moreover from kp jq jk have "occupiedCells piece \<inter> occupiedCells q = {}"
      using old_dis by blast
    ultimately show ?thesis using True by (intro exit_disjoint)
  next
    case False
    with acc jq jk have "\<not> intersects q (move piece d)"
      by (auto simp: getID_move idk)
    with old_safe [OF jq] moved_safe have "occupiedCells q \<inter> occupiedCells (move piece d) = {}"
      by (simp add: cells_disjoint_iff)
    then show ?thesis by (simp add: Int_commute)
  qed
  have "isBoard pieces'"
    unfolding new using board kin by (rule isBoard_Map_set) (simp add: getID_move idk)
  moreover have "piecesDisjoint pieces'"
    unfolding piecesDisjoint_def
  proof (intro ballI, clarify)
    fix i p j q
    assume ip: "(i, p) \<in> set pieces'" and jq: "(j, q) \<in> set pieces'" and ij: "i \<noteq> j"
    from ip have ip': "(i = k \<and> p = move piece d) \<or> (i \<noteq> k \<and> (i, p) \<in> set pieces)"
      unfolding new mem .
    from jq have jq': "(j = k \<and> q = move piece d) \<or> (j \<noteq> k \<and> (j, q) \<in> set pieces)"
      unfolding new mem .
    from ip' jq' ij consider
        "i = k" "p = move piece d" "j \<noteq> k" "(j, q) \<in> set pieces"
      | "j = k" "q = move piece d" "i \<noteq> k" "(i, p) \<in> set pieces"
      | "i \<noteq> k" "(i, p) \<in> set pieces" "j \<noteq> k" "(j, q) \<in> set pieces"
      by blast
    then show "occupiedCells p \<inter> occupiedCells q = {}"
    proof cases
      case 1
      then show ?thesis using moved_dis by blast
    next
      case 2
      then have "occupiedCells q \<inter> occupiedCells p = {}" using moved_dis by blast
      then show ?thesis by (simp add: Int_commute)
    next
      case 3
      with ij show ?thesis using old_dis by blast
    qed
  qed
  moreover have "piecesPlaced pieces'"
    unfolding piecesPlaced_def
  proof (intro ballI, clarify)
    fix j q
    assume "(j, q) \<in> set pieces'"
    then have "(j = k \<and> q = move piece d) \<or> (j \<noteq> k \<and> (j, q) \<in> set pieces)"
      unfolding new mem .
    then show "if j = SUN_ID then height (getDimensions q) = 2 \<and> occupiedCells q \<subseteq> exitGrid
               else occupiedCells q \<subseteq> grid"
    proof
      assume "j = k \<and> q = move piece d"
      with moved_placed show ?thesis by simp
    next
      assume a: "j \<noteq> k \<and> (j, q) \<in> set pieces"
      show ?thesis
      proof (cases "j = SUN_ID")
        case True
        with a have "(SUN_ID, q) \<in> set pieces" by simp
        from old_sun [OF this] True show ?thesis by simp
      next
        case False
        with a old_placed [of j q] show ?thesis by simp
      qed
    qed
  qed
  ultimately show ?thesis by (simp add: boardInv_def)
qed

lemma boardInv_acceptedMoves:
  "boardInv pieces \<Longrightarrow> acceptedMoves pieces ms = Some reached \<Longrightarrow> boardInv reached"
proof (induction ms arbitrary: pieces)
  case Nil
  then show ?case by simp
next
  case (Cons m ms)
  obtain k d where m: "m = (k, d)" by (cases m)
  from Cons.prems(2) m have ok: "canMoveWithOthers pieces k d = Inr True"
    by (auto split: if_splits)
  with Cons.prems(2) m obtain alert mid where
    step: "onMove pieces k d = Inr (alert, mid)" and rest: "acceptedMoves mid ms = Some reached"
    by (auto split: sum.splits)
  from Cons.prems(1) ok step have "boardInv mid" by (rule boardInv_step)
  then show ?case using rest by (rule Cons.IH)
qed

lemma boardInv_initializePieces: "boardInv initializePieces"
proof -
  have "piecesDisjoint initializePieces"
    unfolding piecesDisjoint_def initializePieces_eq
    by (simp add: cells_disjoint_iff intersects_arith safePiece_def
          VerticalRect_squares_def HorizontalRect_squares_def SunSquare_squares_def)
  moreover have "piecesPlaced initializePieces"
    unfolding piecesPlaced_def initializePieces_eq
    by (simp add: grid_def exitGrid_def occupiedCells_subset SUN_ID_def GRID_WIDTH_def GRID_HEIGHT_def
          VerticalRect_squares_def HorizontalRect_squares_def SunSquare_squares_def)
  ultimately show ?thesis
    using isBoard_initializePieces by (simp add: boardInv_def)
qed

section \<open>The win evaluator\<close>

text \<open>
  C3. \<open>checkWinCondition\<close> is true exactly when the identity is the Sun's (1), the direction
  is down and the piece's top-left before the move is (1, GRID_HEIGHT - 2) = (1, 3).
\<close>

theorem checkWinCondition_iff:
  "checkWinCondition pieceID piece direction =
     (pieceID = 1 \<and> direction = Down \<and> getTopLeft piece = \<lparr>px = 1, py = 3\<rparr>)"
  by (rule checkWinCondition_eq)

section \<open>Bounds checking\<close>

text \<open>
  C5, as amended. \<open>canMove\<close> looks only at the coordinate that the move changes. Whenever the
  footprint translated one step lies within the grid, \<open>canMove\<close> is true; and for a piece
  whose footprint lies within the grid now, \<open>canMove\<close> is true exactly when the translated
  footprint lies within the grid.
\<close>

theorem canMove_iff_translated_in_grid:
  "(translateCell direction ` occupiedCells piece \<subseteq> grid \<longrightarrow> canMove piece direction) \<and>
   (occupiedCells piece \<subseteq> grid \<longrightarrow>
      (canMove piece direction \<longleftrightarrow> translateCell direction ` occupiedCells piece \<subseteq> grid))"
  unfolding occupiedCells_move [symmetric] grid_def GRID_WIDTH_def GRID_HEIGHT_def
    occupiedCells_subset getTopLeft_move getDimensions_move canMove_arith
  using getDimensions_pos [of piece]
  by (cases direction) auto

theorem canMove_iff_translated_in_grid_witness:
  "translateCell Down ` occupiedCells (SunSquare \<lparr>px = 1, py = 0\<rparr> 1) \<subseteq> grid \<and>
   occupiedCells (SunSquare \<lparr>px = 1, py = 0\<rparr> 1) \<subseteq> grid \<and>
   canMove (SunSquare \<lparr>px = 1, py = 0\<rparr> 1) Down"
proof -
  have here: "occupiedCells (SunSquare \<lparr>px = 1, py = 0\<rparr> 1) \<subseteq> grid"
    by (simp add: grid_def GRID_WIDTH_def GRID_HEIGHT_def occupiedCells_subset SunSquare_squares_def)
  have there: "translateCell Down ` occupiedCells (SunSquare \<lparr>px = 1, py = 0\<rparr> 1) \<subseteq> grid"
    by (simp add: occupiedCells_move [symmetric] grid_def GRID_WIDTH_def GRID_HEIGHT_def
          occupiedCells_subset SunSquare_squares_def)
  from canMove_iff_translated_in_grid [of Down "SunSquare \<lparr>px = 1, py = 0\<rparr> 1"] here there
  show ?thesis by blast
qed

text \<open>
  The claim as stated fails for a piece that is not inside the grid: the Sun one row below
  the grid, where the win exit leaves it, may move left although its translated footprint
  has cells in row 5.
\<close>

theorem canMove_outside_grid_counterexample:
  "canMove (SunSquare \<lparr>px = 1, py = 4\<rparr> 1) Left \<and>
   \<not> translateCell Left ` occupiedCells (SunSquare \<lparr>px = 1, py = 4\<rparr> 1) \<subseteq> grid"
  by (simp add: occupiedCells_move [symmetric] grid_def GRID_WIDTH_def GRID_HEIGHT_def
        occupiedCells_subset SunSquare_squares_def)

section \<open>Collision detection\<close>

text \<open>
  C6, as amended. For every two pieces, of any shapes, whose top-left coordinates are safe
  integers (of magnitude at most \<open>2\<^sup>5\<^sup>3 - 1\<close>), inside the grid or not, \<open>intersects\<close> is
  true exactly when their occupied-cell sets share a cell.
\<close>

theorem intersects_iff_cells_meet:
  assumes "safePiece piece" and "safePiece other"
  shows "intersects piece other \<longleftrightarrow> occupiedCells piece \<inter> occupiedCells other \<noteq> {}"
  using assms by (rule intersects_cells)

theorem intersects_iff_cells_meet_witness:
  "safePiece (SunSquare \<lparr>px = - 1, py = 5\<rparr> 1) \<and>
   safePiece (PSquare (Square \<lparr>px = 0, py = 6\<rparr> 5)) \<and>
   (0, 6) \<in> occupiedCells (SunSquare \<lparr>px = - 1, py = 5\<rparr> 1) \<inter>
             occupiedCells (PSquare (Square \<lparr>px = 0, py = 6\<rparr> 5)) \<and>
   intersects (SunSquare \<lparr>px = - 1, py = 5\<rparr> 1) (PSquare (Square \<lparr>px = 0, py = 6\<rparr> 5))"
proof -
  have sun: "safePiece (SunSquare \<lparr>px = - 1, py = 5\<rparr> 1)"
    by (simp add: safePiece_def SunSquare_squares_def)
  have square: "safePiece (PSquare (Square \<lparr>px = 0, py = 6\<rparr> 5))"
    by (simp add: safePiece_def)
  have cell: "(0, 6) \<in> occupiedCells (SunSquare \<lparr>px = - 1, py = 5\<rparr> 1) \<inter>
             occupiedCells (PSquare (Square \<lparr>px = 0, py = 6\<rparr> 5))"
    by (simp add: in_occupiedCells SunSquare_squares_def)
  then have "occupiedCells (SunSquare \<lparr>px = - 1, py = 5\<rparr> 1) \<inter>
             occupiedCells (PSquare (Square \<lparr>px = 0, py = 6\<rparr> 5)) \<noteq> {}"
    by blast
  with intersects_iff_cells_meet [OF sun square]
  have "intersects (SunSquare \<lparr>px = - 1, py = 5\<rparr> 1) (PSquare (Square \<lparr>px = 0, py = 6\<rparr> 5))"
    by simp
  with sun square cell show ?thesis by (intro conjI)
qed

text \<open>
  The claim as stated, for any top-left positions, fails above \<open>2\<^sup>5\<^sup>3\<close>, where the offsets
  of \<open>getCoveredArea\<close> are rounded: for the 2\<times>1 piece at \<open>x = 2\<^sup>5\<^sup>3 + 2\<close> the sum \<open>x + 1\<close> is
  the double \<open>2\<^sup>5\<^sup>3 + 4\<close>, so the piece intersects the square at \<open>x = 2\<^sup>5\<^sup>3 + 4\<close>, which its
  occupied-cell set \<open>{x, x + 1}\<close> does not meet.
\<close>

theorem intersects_rounding_counterexample:
  "intersects (HorizontalRect \<lparr>px = 9007199254740994, py = 0\<rparr> 3)
     (PSquare (Square \<lparr>px = 9007199254740996, py = 0\<rparr> 5)) \<and>
   occupiedCells (HorizontalRect \<lparr>px = 9007199254740994, py = 0\<rparr> 3) \<inter>
     occupiedCells (PSquare (Square \<lparr>px = 9007199254740996, py = 0\<rparr> 5)) = {}"
proof -
  have offsets: "[0 .. 1 :: int] = [0, 1]" "[0 .. 0 :: int] = [0]"
    by (simp_all add: upto.simps)
  have sums:
    "Number_add 9007199254740994 0 = 9007199254740994"
    "Number_add 9007199254740994 1 = 9007199254740996"
    "Number_add 9007199254740996 0 = 9007199254740996"
    "Number_add 0 0 = 0"
    by (simp_all add: Number_add_def Number_round_def ulp_next ulp_small)
  have "getCoveredArea (HorizontalRect \<lparr>px = 9007199254740994, py = 0\<rparr> 3) =
          [JSON_stringify \<lparr>px = 9007199254740994, py = 0\<rparr>,
           JSON_stringify \<lparr>px = 9007199254740996, py = 0\<rparr>]"
    by (simp add: getCoveredArea_def Let_def HorizontalRect_squares_def offsets sums Set_add_def
          JSON_stringify_eq_iff)
  moreover have "getCoveredArea (PSquare (Square \<lparr>px = 9007199254740996, py = 0\<rparr> 5)) =
          [JSON_stringify \<lparr>px = 9007199254740996, py = 0\<rparr>]"
    by (simp add: getCoveredArea_def Let_def offsets sums Set_add_def)
  ultimately have "intersects (HorizontalRect \<lparr>px = 9007199254740994, py = 0\<rparr> 3)
     (PSquare (Square \<lparr>px = 9007199254740996, py = 0\<rparr> 5))"
    by (simp add: intersects_eq areasOverlap_def Set_has_def Set_size_def new_Set_def Set_add_def
          JSON_stringify_eq_iff)
  moreover have "occupiedCells (HorizontalRect \<lparr>px = 9007199254740994, py = 0\<rparr> 3) \<inter>
     occupiedCells (PSquare (Square \<lparr>px = 9007199254740996, py = 0\<rparr> 5)) = {}"
    by (simp add: occupiedCells_def HorizontalRect_squares_def Times_Int_Times)
  ultimately show ?thesis by (intro conjI)
qed

text \<open>C9. \<open>intersects\<close> is symmetric.\<close>

theorem intersects_symmetric:
  "intersects piece other = intersects other piece"
  by (rule intersects_sym)

section \<open>Inverse moves\<close>

text \<open>
  C8. Moving a piece one step and then one step in the opposite direction gives the piece
  back: same shape, same identity, same top-left. The unit steps of \<open>movePosition\<close> are
  exact here, as they are in the code at every in-bounds position and every safe integer,
  so the statement carries no assumption on the bounds.
\<close>

theorem move_then_opposite_move:
  "move (move piece direction) (opposite direction) = piece"
proof (cases piece)
  case (PSquare s)
  then show ?thesis by (cases s; cases direction) simp_all
qed (cases direction;
     simp add: VerticalRect_squares_def HorizontalRect_squares_def SunSquare_squares_def)+

section \<open>The move validator\<close>

text \<open>
  C4. For a board and an identity present on it, \<open>canMoveWithOthers\<close> returns true at once
  when the win-exit exception applies (Sun, down, top-left (1, 3)); otherwise false when the
  piece's \<open>canMove\<close> is false; otherwise true exactly when the piece moved one step
  intersects no piece of the board whose key differs from the moved piece's identity. The
  moved piece's own entry is never tested.
\<close>

theorem canMoveWithOthers_decision:
  assumes "Map_get pieces pieceID = Some piece"
  shows "canMoveWithOthers pieces pieceID direction =
     Inr (if pieceID = 1 \<and> direction = Down \<and> getTopLeft piece = \<lparr>px = 1, py = 3\<rparr> then True
          else if \<not> canMove piece direction then False
          else (\<forall>(k, other) \<in> set pieces.
                  k \<noteq> getID (move piece direction) \<longrightarrow> \<not> intersects (move piece direction) other))"
proof -
  have "canMoveWithOthers_loop pieces (getID (move piece direction)) (move piece direction) \<longleftrightarrow>
        (\<forall>(k, other) \<in> set pieces.
            k \<noteq> getID (move piece direction) \<longrightarrow> \<not> intersects (move piece direction) other)"
    unfolding canMoveWithOthers_loop_iff intersects_sym [of _ "move piece direction"] ..
  with assms show ?thesis
    by (simp add: canMoveWithOthers_def findPiece_def checkWinCondition_eq)
qed

theorem canMoveWithOthers_decision_witness:
  "Map_get initializePieces 3 = Some (HorizontalRect \<lparr>px = 1, py = 2\<rparr> 3) \<and>
   canMoveWithOthers initializePieces 3 Up = Inr False \<and>
   canMoveWithOthers initializePieces 3 Left = Inr True \<and>
   Map_get [(1, SunSquare \<lparr>px = 1, py = 3\<rparr> 1)] 1 = Some (SunSquare \<lparr>px = 1, py = 3\<rparr> 1) \<and>
   \<not> canMove (SunSquare \<lparr>px = 1, py = 3\<rparr> 1) Down \<and>
   canMoveWithOthers [(1, SunSquare \<lparr>px = 1, py = 3\<rparr> 1)] 1 Down = Inr True"
proof -
  have s: "Map_get [(1, SunSquare \<lparr>px = 1, py = 3\<rparr> 1)] 1 = Some (SunSquare \<lparr>px = 1, py = 3\<rparr> 1)"
    by (simp add: Map_get_def)
  have exit: "canMoveWithOthers [(1, SunSquare \<lparr>px = 1, py = 3\<rparr> 1)] 1 Down = Inr True"
    unfolding canMoveWithOthers_decision [OF s]
    by (simp add: SunSquare_squares_def)
  have blocked: "\<not> canMove (SunSquare \<lparr>px = 1, py = 3\<rparr> 1) Down"
    by (simp add: SunSquare_squares_def GRID_HEIGHT_def)
  have h: "Map_get initializePieces 3 = Some (HorizontalRect \<lparr>px = 1, py = 2\<rparr> 3)"
    by (simp add: initializePieces_eq Map_get_def)
  have up: "canMoveWithOthers initializePieces 3 Up = Inr False"
    unfolding canMoveWithOthers_decision [OF h]
    by (simp add: initializePieces_eq canMove_arith intersects_arith safePiece_def
          HorizontalRect_squares_def
          VerticalRect_squares_def SunSquare_squares_def)
  have left: "canMoveWithOthers initializePieces 3 Left = Inr True"
    unfolding canMoveWithOthers_decision [OF h]
    by (simp add: initializePieces_eq canMove_arith intersects_arith safePiece_def
          HorizontalRect_squares_def
          VerticalRect_squares_def SunSquare_squares_def)
  from h up left s blocked exit show ?thesis by (intro conjI)
qed

section \<open>The driver\<close>

text \<open>
  C7. On a board, a move of the piece of identity \<open>k\<close> by the driver gives a board that maps
  \<open>k\<close> to the moved piece and every other identity to what the old board maps it to, with
  the same keys in the same order: no entry is added or removed. This holds for every move
  \<open>onMove\<close> applies, so for the accepted ones.
\<close>

theorem onMove_replaces_one_entry:
  assumes "isBoard pieces" and "Map_get pieces k = Some piece"
  shows "\<exists>alert pieces'.
           onMove pieces k direction = Inr (alert, pieces') \<and>
           Map_get pieces' k = Some (move piece direction) \<and>
           (\<forall>j. j \<noteq> k \<longrightarrow> Map_get pieces' j = Map_get pieces j) \<and>
           map fst pieces' = map fst pieces"
proof -
  from assms(2) have k: "k \<in> fst ` set pieces" by (rule Map_get_key)
  have "map fst (Map_set pieces k (move piece direction)) = map fst pieces"
    unfolding Map_set_present [OF k] by (rule map_fst_replace)
  then show ?thesis
    unfolding onMove_isBoard [OF assms] by (simp add: Map_get_Map_set)
qed

theorem onMove_replaces_one_entry_witness:
  "isBoard initializePieces \<and>
   Map_get initializePieces 3 = Some (HorizontalRect \<lparr>px = 1, py = 2\<rparr> 3) \<and>
   canMoveWithOthers initializePieces 3 Left = Inr True \<and>
   (\<exists>alert pieces'.
      onMove initializePieces 3 Left = Inr (alert, pieces') \<and>
      Map_get pieces' 3 = Some (HorizontalRect \<lparr>px = 0, py = 2\<rparr> 3) \<and>
      Map_get pieces' 1 = Some (SunSquare \<lparr>px = 1, py = 0\<rparr> 1) \<and>
      map fst pieces' = [0, 1, 2, 3, 4, 5, 6, 7, 8, 9])"
proof -
  have h: "Map_get initializePieces 3 = Some (HorizontalRect \<lparr>px = 1, py = 2\<rparr> 3)"
    by (simp add: initializePieces_eq Map_get_def)
  have ok: "canMoveWithOthers initializePieces 3 Left = Inr True"
    by (simp add: board_eval)
  from onMove_replaces_one_entry [OF isBoard_initializePieces h, of Left]
  obtain alert pieces' where
    "onMove initializePieces 3 Left = Inr (alert, pieces')"
    "Map_get pieces' 3 = Some (move (HorizontalRect \<lparr>px = 1, py = 2\<rparr> 3) Left)"
    "\<forall>j. j \<noteq> 3 \<longrightarrow> Map_get pieces' j = Map_get initializePieces j"
    "map fst pieces' = map fst initializePieces"
    by blast
  moreover have "Map_get initializePieces 1 = Some (SunSquare \<lparr>px = 1, py = 0\<rparr> 1)"
    by (simp add: initializePieces_eq Map_get_def)
  moreover have "map fst initializePieces = [0, 1, 2, 3, 4, 5, 6, 7, 8, 9]"
    by (simp add: initializePieces_eq)
  ultimately have
    "onMove initializePieces 3 Left = Inr (alert, pieces') \<and>
      Map_get pieces' 3 = Some (HorizontalRect \<lparr>px = 0, py = 2\<rparr> 3) \<and>
      Map_get pieces' 1 = Some (SunSquare \<lparr>px = 1, py = 0\<rparr> 1) \<and>
      map fst pieces' = [0, 1, 2, 3, 4, 5, 6, 7, 8, 9]"
    by (simp add: HorizontalRect_squares_def)
  then have "\<exists>alert pieces'.
      onMove initializePieces 3 Left = Inr (alert, pieces') \<and>
      Map_get pieces' 3 = Some (HorizontalRect \<lparr>px = 0, py = 2\<rparr> 3) \<and>
      Map_get pieces' 1 = Some (SunSquare \<lparr>px = 1, py = 0\<rparr> 1) \<and>
      map fst pieces' = [0, 1, 2, 3, 4, 5, 6, 7, 8, 9]"
    by (intro exI)
  with isBoard_initializePieces h ok show ?thesis by (intro conjI)
qed

text \<open>
  C10. Key consistency, each key of the map being the \<open>getID\<close> of its piece, holds on the
  initial board, is preserved by every \<open>onMove\<close>, so holds after every sequence of moves of
  the driver from the initial board; and \<open>move\<close> preserves the identity of a piece of any
  of the four shapes.
\<close>

theorem key_consistency_preserved:
  "keyConsistent initializePieces \<and>
   (keyConsistent pieces \<and> onMove pieces pieceID direction = Inr (alert, pieces') \<longrightarrow>
      keyConsistent pieces') \<and>
   (driverMoves initializePieces requests = Inr reached \<longrightarrow> keyConsistent reached) \<and>
   getID (move piece direction') = getID piece"
proof -
  have init: "keyConsistent initializePieces"
    using isBoard_initializePieces by (simp add: isBoard_def)
  then show ?thesis
    by (auto simp: getID_move dest: keyConsistent_onMove keyConsistent_driverMoves)
qed

theorem key_consistency_preserved_witness:
  "keyConsistent initializePieces \<and>
   onMove initializePieces 3 Up =
     Inr (False, Map_set initializePieces 3 (HorizontalRect \<lparr>px = 1, py = 1\<rparr> 3)) \<and>
   keyConsistent (Map_set initializePieces 3 (HorizontalRect \<lparr>px = 1, py = 1\<rparr> 3)) \<and>
   driverMoves initializePieces [(3, Up)] =
     Inr (Map_set initializePieces 3 (HorizontalRect \<lparr>px = 1, py = 1\<rparr> 3))"
proof -
  let ?b = "Map_set initializePieces 3 (HorizontalRect \<lparr>px = 1, py = 1\<rparr> 3)"
  have h: "Map_get initializePieces 3 = Some (HorizontalRect \<lparr>px = 1, py = 2\<rparr> 3)"
    by (simp add: initializePieces_eq Map_get_def)
  have step: "onMove initializePieces 3 Up = Inr (False, ?b)"
    unfolding onMove_isBoard [OF isBoard_initializePieces h]
    by (simp add: checkWinCondition_eq HorizontalRect_squares_def)
  then have run: "driverMoves initializePieces [(3, Up)] = Inr ?b" by simp
  from key_consistency_preserved [of initializePieces 3 Up False ?b "[(3, Up)]" ?b] step run
  have "keyConsistent initializePieces \<and> keyConsistent ?b" by blast
  with step run show ?thesis by blast
qed

text \<open>
  C1, as amended. \<open>onMove\<close> does not validate. When the validator rejects a move of a piece
  present on the board, no arrow for that direction is rendered, so \<open>onMove\<close> is not called
  for it; called all the same, \<open>onMove\<close> replaces the entry of the piece by the moved piece
  and raises no alert.
\<close>

theorem onMove_does_not_validate:
  assumes "isBoard pieces" and "Map_get pieces pieceID = Some piece"
    and "canMoveWithOthers pieces pieceID direction = Inr False"
  shows "direction \<notin> set (App_arrows pieces pieceID) \<and>
         onMove pieces pieceID direction =
           Inr (False, Map_set pieces pieceID (move piece direction))"
proof -
  from assms(3) have "direction \<notin> set (App_arrows pieces pieceID)"
    by (cases direction) (simp_all add: App_arrows_def PieceControls_def)
  moreover from assms(2,3) have "\<not> checkWinCondition pieceID piece direction"
    by (auto simp: canMoveWithOthers_def findPiece_def split: if_splits)
  ultimately show ?thesis
    by (simp add: onMove_isBoard [OF assms(1,2)])
qed

theorem onMove_does_not_validate_witness:
  "isBoard initializePieces \<and>
   Map_get initializePieces 0 = Some (VerticalRect \<lparr>px = 0, py = 0\<rparr> 0) \<and>
   canMoveWithOthers initializePieces 0 Up = Inr False \<and>
   Up \<notin> set (App_arrows initializePieces 0) \<and>
   onMove initializePieces 0 Up =
     Inr (False, Map_set initializePieces 0 (VerticalRect \<lparr>px = 0, py = - 1\<rparr> 0))"
proof -
  have h: "Map_get initializePieces 0 = Some (VerticalRect \<lparr>px = 0, py = 0\<rparr> 0)"
    by (simp add: initializePieces_eq Map_get_def)
  have no: "canMoveWithOthers initializePieces 0 Up = Inr False"
    by (simp add: board_eval)
  from onMove_does_not_validate [OF isBoard_initializePieces h no]
  have "Up \<notin> set (App_arrows initializePieces 0) \<and>
   onMove initializePieces 0 Up =
     Inr (False, Map_set initializePieces 0 (VerticalRect \<lparr>px = 0, py = - 1\<rparr> 0))"
    by (simp add: VerticalRect_squares_def)
  with isBoard_initializePieces h no show ?thesis by blast
qed

text \<open>
  The claim as stated fails: on the initial board the piece 3 may not move up, since it
  would overlap the Sun, yet \<open>onMove\<close> moves it there and the board changes.
\<close>

theorem onMove_applies_illegal_move_counterexample:
  "Map_get initializePieces 3 = Some (HorizontalRect \<lparr>px = 1, py = 2\<rparr> 3) \<and>
   canMove (HorizontalRect \<lparr>px = 1, py = 2\<rparr> 3) Up \<and>
   intersects (HorizontalRect \<lparr>px = 1, py = 1\<rparr> 3) (SunSquare \<lparr>px = 1, py = 0\<rparr> 1) \<and>
   canMoveWithOthers initializePieces 3 Up = Inr False \<and>
   onMove initializePieces 3 Up =
     Inr (False, Map_set initializePieces 3 (HorizontalRect \<lparr>px = 1, py = 1\<rparr> 3)) \<and>
   Map_set initializePieces 3 (HorizontalRect \<lparr>px = 1, py = 1\<rparr> 3) \<noteq> initializePieces"
proof -
  have h: "Map_get initializePieces 3 = Some (HorizontalRect \<lparr>px = 1, py = 2\<rparr> 3)"
    by (simp add: initializePieces_eq Map_get_def)
  have step: "onMove initializePieces 3 Up =
      Inr (False, Map_set initializePieces 3 (HorizontalRect \<lparr>px = 1, py = 1\<rparr> 3))"
    unfolding onMove_isBoard [OF isBoard_initializePieces h]
    by (simp add: checkWinCondition_eq HorizontalRect_squares_def)
  have "canMoveWithOthers initializePieces 3 Up = Inr False"
    by (simp add: board_eval)
  moreover have "Map_set initializePieces 3 (HorizontalRect \<lparr>px = 1, py = 1\<rparr> 3) \<noteq> initializePieces"
    by (simp add: initializePieces_eq Map_set_def)
  moreover have "canMove (HorizontalRect \<lparr>px = 1, py = 2\<rparr> 3) Up"
    by (simp add: HorizontalRect_squares_def)
  moreover have "intersects (HorizontalRect \<lparr>px = 1, py = 1\<rparr> 3) (SunSquare \<lparr>px = 1, py = 0\<rparr> 1)"
    by (simp add: intersects_arith safePiece_def HorizontalRect_squares_def SunSquare_squares_def)
  ultimately show ?thesis using h step by blast
qed

section \<open>The board invariant\<close>

text \<open>
  C2, as amended. On every board reached from the initial layout by moves the validator
  accepts, the occupied-cell sets of any two distinct pieces are disjoint, every piece
  other than the Sun lies within the grid, and the Sun lies within the grid or the row
  below it.
\<close>

theorem reachable_boards_disjoint:
  assumes "acceptedMoves initializePieces requests = Some reached"
  shows "(\<forall>(k, p) \<in> set reached. \<forall>(j, q) \<in> set reached.
            k \<noteq> j \<longrightarrow> occupiedCells p \<inter> occupiedCells q = {}) \<and>
         (\<forall>(k, p) \<in> set reached. occupiedCells p \<subseteq> (if k = SUN_ID then exitGrid else grid))"
proof -
  from boardInv_initializePieces assms have "boardInv reached"
    by (rule boardInv_acceptedMoves)
  then have dis: "piecesDisjoint reached" and placed: "piecesPlaced reached"
    by (simp_all add: boardInv_def)
  have "occupiedCells p \<subseteq> (if k = SUN_ID then exitGrid else grid)"
    if "(k, p) \<in> set reached" for k p
    using placed that unfolding piecesPlaced_def by (cases "k = SUN_ID") fastforce+
  with dis show ?thesis
    unfolding piecesDisjoint_def by blast
qed

theorem reachable_boards_disjoint_witness:
  "acceptedMoves initializePieces [(3, Left), (6, Up)] =
     Some [(0, VerticalRect \<lparr>px = 0, py = 0\<rparr> 0),
           (1, SunSquare \<lparr>px = 1, py = 0\<rparr> 1),
           (2, VerticalRect \<lparr>px = 3, py = 0\<rparr> 2),
           (3, HorizontalRect \<lparr>px = 0, py = 2\<rparr> 3),
           (4, VerticalRect \<lparr>px = 0, py = 3\<rparr> 4),
           (5, PSquare (Square \<lparr>px = 1, py = 3\<rparr> 5)),
           (6, PSquare (Square \<lparr>px = 2, py = 2\<rparr> 6)),
           (7, VerticalRect \<lparr>px = 3, py = 3\<rparr> 7),
           (8, PSquare (Square \<lparr>px = 1, py = 4\<rparr> 8)),
           (9, PSquare (Square \<lparr>px = 2, py = 4\<rparr> 9))] \<and>
   occupiedCells (HorizontalRect \<lparr>px = 0, py = 2\<rparr> 3) \<inter>
     occupiedCells (PSquare (Square \<lparr>px = 2, py = 2\<rparr> 6)) = {} \<and>
   occupiedCells (PSquare (Square \<lparr>px = 2, py = 2\<rparr> 6)) \<subseteq> grid \<and>
   occupiedCells (SunSquare \<lparr>px = 1, py = 0\<rparr> 1) \<subseteq> exitGrid"
proof -
  let ?b = "[(0, VerticalRect \<lparr>px = 0, py = 0\<rparr> 0),
           (1, SunSquare \<lparr>px = 1, py = 0\<rparr> 1),
           (2, VerticalRect \<lparr>px = 3, py = 0\<rparr> 2),
           (3, HorizontalRect \<lparr>px = 0, py = 2\<rparr> 3),
           (4, VerticalRect \<lparr>px = 0, py = 3\<rparr> 4),
           (5, PSquare (Square \<lparr>px = 1, py = 3\<rparr> 5)),
           (6, PSquare (Square \<lparr>px = 2, py = 2\<rparr> 6)),
           (7, VerticalRect \<lparr>px = 3, py = 3\<rparr> 7),
           (8, PSquare (Square \<lparr>px = 1, py = 4\<rparr> 8)),
           (9, PSquare (Square \<lparr>px = 2, py = 4\<rparr> 9))]"
  have run: "acceptedMoves initializePieces [(3, Left), (6, Up)] = Some ?b"
    by (simp add: board_eval onMove_def Map_set_def Let_def)
  note all = reachable_boards_disjoint [OF run]
  from all have "occupiedCells (HorizontalRect \<lparr>px = 0, py = 2\<rparr> 3) \<inter>
     occupiedCells (PSquare (Square \<lparr>px = 2, py = 2\<rparr> 6)) = {}"
    by simp
  moreover from all have "occupiedCells (PSquare (Square \<lparr>px = 2, py = 2\<rparr> 6)) \<subseteq> grid"
    by (simp add: SUN_ID_def)
  moreover from all have "occupiedCells (SunSquare \<lparr>px = 1, py = 0\<rparr> 1) \<subseteq> exitGrid"
    by (simp add: SUN_ID_def)
  ultimately show ?thesis using run by (intro conjI)
qed

text \<open>
  The claim as stated fails: the shortest solution of the puzzle, 112 accepted moves that
  bring the Sun to (1, 3), followed by the win-exit move, reaches a board whose Sun covers
  cells of row 5, outside the grid.
\<close>

theorem sun_leaves_grid_counterexample:
  "acceptedMoves initializePieces
     [(3, Left), (6, Up), (6, Right), (3, Right), (4, Up), (8, Left),
      (9, Left), (7, Left), (6, Down), (3, Right), (5, Up), (6, Down),
      (9, Up), (8, Right), (4, Down), (5, Left), (3, Left), (2, Down),
      (2, Down), (1, Right), (0, Right), (5, Up), (4, Up), (5, Up),
      (4, Up), (8, Left), (9, Left), (7, Left), (6, Left), (2, Down),
      (3, Right), (6, Up), (7, Up), (8, Right), (8, Right), (7, Down),
      (0, Down), (5, Right), (4, Up), (9, Up), (7, Left), (0, Down),
      (0, Down), (9, Right), (9, Up), (3, Left), (2, Up), (3, Left),
      (8, Right), (6, Down), (2, Left), (8, Up), (6, Right), (2, Down),
      (3, Right), (3, Right), (0, Up), (4, Down), (5, Left), (9, Up),
      (0, Up), (2, Left), (6, Left), (8, Down), (3, Down), (1, Down),
      (9, Right), (5, Right), (4, Up), (7, Up), (9, Right), (5, Right),
      (0, Up), (2, Up), (6, Left), (6, Left), (8, Left), (8, Left),
      (3, Down), (1, Down), (5, Down), (5, Right), (0, Right), (2, Up),
      (2, Up), (1, Left), (5, Down), (5, Down), (9, Down), (9, Down),
      (0, Right), (2, Right), (4, Right), (7, Up), (7, Up), (1, Left),
      (5, Left), (5, Up), (3, Up), (8, Right), (6, Right), (8, Right),
      (6, Right), (1, Down), (5, Left), (5, Left), (9, Left), (9, Left),
      (3, Up), (6, Up), (6, Right), (1, Right), (1, Down)] =
     Some [(0, VerticalRect \<lparr>px = 3, py = 0\<rparr> 0),
           (1, SunSquare \<lparr>px = 1, py = 4\<rparr> 1),
           (2, VerticalRect \<lparr>px = 2, py = 0\<rparr> 2),
           (3, HorizontalRect \<lparr>px = 2, py = 2\<rparr> 3),
           (4, VerticalRect \<lparr>px = 1, py = 0\<rparr> 4),
           (5, PSquare (Square \<lparr>px = 0, py = 2\<rparr> 5)),
           (6, PSquare (Square \<lparr>px = 3, py = 3\<rparr> 6)),
           (7, VerticalRect \<lparr>px = 0, py = 0\<rparr> 7),
           (8, PSquare (Square \<lparr>px = 3, py = 4\<rparr> 8)),
           (9, PSquare (Square \<lparr>px = 1, py = 2\<rparr> 9))] \<and>
   (1, 5) \<in> occupiedCells (SunSquare \<lparr>px = 1, py = 4\<rparr> 1) \<and>
   \<not> occupiedCells (SunSquare \<lparr>px = 1, py = 4\<rparr> 1) \<subseteq> grid"
proof -
  have "(1, 5) \<in> occupiedCells (SunSquare \<lparr>px = 1, py = 4\<rparr> 1)"
    by (simp add: in_occupiedCells SunSquare_squares_def)
  moreover have "\<not> occupiedCells (SunSquare \<lparr>px = 1, py = 4\<rparr> 1) \<subseteq> grid"
    by (simp add: grid_def GRID_WIDTH_def GRID_HEIGHT_def occupiedCells_subset SunSquare_squares_def)
  ultimately show ?thesis
    by (simp add: board_eval onMove_def Map_set_def Let_def)
qed

end
